theory Spec2Isabelle
  imports Main
begin

section \<open>Decoded JSON values and the Python operations the scraper applies to them\<close>

text \<open>
  The scraper works on whatever \<^verbatim>\<open>response.json()\<close> decodes: dictionaries, lists,
  strings, integers, booleans and \<^verbatim>\<open>None\<close>. A dictionary is an association list read
  with \<open>map_of\<close> (the first binding of a key is the dictionary's value for it). Numbers
  are Python integers; JSON numbers with a fraction or an exponent (Python floats) are
  outside this model.
\<close>

datatype json =
    JNull
  | JBool bool
  | JInt int
  | JStr string
  | JArr "json list"
  | JObj "(string \<times> json) list"

text \<open>
  Every \<^verbatim>\<open>raise\<close> of the source is a value. \<open>ClientError\<close> stands for what the HTTP
  session raises (\<^verbatim>\<open>aiohttp.ClientError\<close>, also from \<^verbatim>\<open>raise_for_status\<close>),
  \<open>ChClientError\<close> for what the ClickHouse client's \<^verbatim>\<open>execute\<close> raises.
\<close>

datatype py_error =
    KeyError string
  | TypeError
  | AttributeError
  | ValueError
  | ClientError string
  | ChClientError string

text \<open>Python truth value of a decoded value (\<^verbatim>\<open>if commit.get("author"):\<close>).\<close>

fun truthy :: "json \<Rightarrow> bool" where
  "truthy JNull = False"
| "truthy (JBool b) = b"
| "truthy (JInt i) = (i \<noteq> 0)"
| "truthy (JStr s) = (s \<noteq> [])"
| "truthy (JArr xs) = (xs \<noteq> [])"
| "truthy (JObj kvs) = (kvs \<noteq> [])"

text \<open>\<^verbatim>\<open>d.get(k, default)\<close> on a dictionary.\<close>

definition dict_get :: "(string \<times> json) list \<Rightarrow> string \<Rightarrow> json \<Rightarrow> json" where
  "dict_get d k dflt = (case map_of d k of None \<Rightarrow> dflt | Some v \<Rightarrow> v)"

text \<open>
  \<^verbatim>\<open>v.get(k, default)\<close> on any decoded value: only a dictionary has the method, every
  other value raises AttributeError.
\<close>

fun attr_get :: "json \<Rightarrow> string \<Rightarrow> json \<Rightarrow> py_error + json" where
  "attr_get (JObj d) k dflt = Inr (dict_get d k dflt)"
| "attr_get _ k dflt = Inl AttributeError"

text \<open>
  \<^verbatim>\<open>v[k]\<close> with a string key: KeyError on a dictionary without the key, TypeError on
  every value that is not a dictionary (lists and strings take integer indices, the
  others are not subscriptable).
\<close>

fun subscript :: "json \<Rightarrow> string \<Rightarrow> py_error + json" where
  "subscript (JObj d) k = (case map_of d k of None \<Rightarrow> Inl (KeyError k) | Some v \<Rightarrow> Inr v)"
| "subscript _ k = Inl TypeError"

text \<open>\<^verbatim>\<open>len(v)\<close>: TypeError on \<^verbatim>\<open>None\<close>, booleans and integers.\<close>

fun py_len :: "json \<Rightarrow> py_error + nat" where
  "py_len (JArr xs) = Inr (length xs)"
| "py_len (JObj kvs) = Inr (length (remdups (map fst kvs)))"
| "py_len (JStr s) = Inr (length s)"
| "py_len _ = Inl TypeError"

text \<open>
  Iterating a value (\<^verbatim>\<open>for commit in commits\<close>, \<^verbatim>\<open>enumerate(top_repos)\<close>): a list
  yields its elements, a dictionary its keys, a string its characters as strings.
\<close>

fun py_iter :: "json \<Rightarrow> py_error + json list" where
  "py_iter (JArr xs) = Inr xs"
| "py_iter (JObj kvs) = Inr (map JStr (remdups (map fst kvs)))"
| "py_iter (JStr s) = Inr (map (\<lambda>c. JStr [c]) s)"
| "py_iter _ = Inl TypeError"

text \<open>Lists and dictionaries are unhashable and cannot be dictionary keys.\<close>

fun hashable :: "json \<Rightarrow> bool" where
  "hashable (JArr xs) = False"
| "hashable (JObj kvs) = False"
| "hashable _ = True"

text \<open>
  Equality of dictionary keys: Python compares \<^verbatim>\<open>True\<close> and \<^verbatim>\<open>1\<close>, \<^verbatim>\<open>False\<close> and
  \<^verbatim>\<open>0\<close> equal (and hashes them alike); every other pair of hashable values is equal
  only when identical.
\<close>

fun key_num :: "json \<Rightarrow> int option" where
  "key_num (JBool b) = Some (if b then 1 else 0)"
| "key_num (JInt i) = Some i"
| "key_num _ = None"

definition key_eq :: "json \<Rightarrow> json \<Rightarrow> bool" where
  "key_eq a b =
     (case (key_num a, key_num b) of
        (Some x, Some y) \<Rightarrow> x = y
      | (None, None) \<Rightarrow> a = b
      | _ \<Rightarrow> False)"

section \<open>The scraper's data classes\<close>

record RepositoryAuthorCommitsNum =
  author :: json
  commits_num :: int

record Repository =
  name :: json
  owner :: json
  position :: int
  stars :: json
  watchers :: json
  forks :: json
  language :: json
  authors_commits_num_today :: "RepositoryAuthorCommitsNum list"

section \<open>Counting commits per author\<close>

text \<open>
  \<^verbatim>\<open>authors_count\<close> is a Python dictionary from author to count; it keeps its keys in
  the order of their first insertion, and \<^verbatim>\<open>.items()\<close> yields them in that order.
\<close>

type_synonym authors_dict = "(json \<times> int) list"

text \<open>\<^verbatim>\<open>authors_count.get(author, 0)\<close>\<close>

fun authors_get :: "authors_dict \<Rightarrow> json \<Rightarrow> int \<Rightarrow> int" where
  "authors_get [] k dflt = dflt"
| "authors_get ((k', v) # rest) k dflt = (if key_eq k' k then v else authors_get rest k dflt)"

text \<open>
  \<^verbatim>\<open>authors_count[author] = v\<close>: an existing key keeps its place (and its first key
  object), a new key goes to the end.
\<close>

fun authors_set :: "authors_dict \<Rightarrow> json \<Rightarrow> int \<Rightarrow> authors_dict" where
  "authors_set [] k v = [(k, v)]"
| "authors_set ((k', v') # rest) k v =
     (if key_eq k' k then (k', v) # rest else (k', v') # authors_set rest k v)"

text \<open>
  The loop of \<^verbatim>\<open>_process_repository\<close>:
  \<^verbatim>\<open>
  for commit in commits:
      if commit.get("author"):
          author = commit["author"].get("login", "unknown")
          authors_count[author] = authors_count.get(author, 0) + 1
  \<close>
  A commit that is not a dictionary and a truthy author that is not a dictionary raise
  AttributeError; a login that is a list or a dictionary raises TypeError.
\<close>

fun count_authors :: "json list \<Rightarrow> authors_dict \<Rightarrow> py_error + authors_dict" where
  "count_authors [] authors_count = Inr authors_count"
| "count_authors (commit # rest) authors_count =
     (case attr_get commit ''author'' JNull of
        Inl e \<Rightarrow> Inl e
      | Inr a \<Rightarrow>
          if truthy a then
            (case attr_get a ''login'' (JStr ''unknown'') of
               Inl e \<Rightarrow> Inl e
             | Inr login \<Rightarrow>
                 if hashable login
                 then count_authors rest
                        (authors_set authors_count login (authors_get authors_count login 0 + 1))
                 else Inl TypeError)
          else count_authors rest authors_count)"

text \<open>
  \<^verbatim>\<open>[RepositoryAuthorCommitsNum(author, count) for author, count in authors_count.items()]\<close>
\<close>

definition authors_commits_of :: "authors_dict \<Rightarrow> RepositoryAuthorCommitsNum list" where
  "authors_commits_of authors_count =
     map (\<lambda>(a, c). \<lparr>author = a, commits_num = c\<rparr>) authors_count"

text \<open>Lines 107 to 113 of \<^verbatim>\<open>_process_repository\<close> as one function of the commits.\<close>

definition aggregate_commits :: "json \<Rightarrow> py_error + RepositoryAuthorCommitsNum list" where
  "aggregate_commits commits =
     (case py_iter commits of
        Inl e \<Rightarrow> Inl e
      | Inr cs \<Rightarrow>
          (case count_authors cs [] of
             Inl e \<Rightarrow> Inl e
           | Inr authors_count \<Rightarrow> Inr (authors_commits_of authors_count)))"

section \<open>The remote API\<close>

text \<open>
  The scraper issues two kinds of request through \<^verbatim>\<open>_make_request\<close>: the search for
  the top repositories with \<^verbatim>\<open>per_page = limit\<close>, and the commits of one repository,
  whose endpoint is formatted from the owner and the repository name. The remote side
  is a parameter of the model: a function from the request to either the decoded body
  or the exception the session raised, so that two tasks making the same request get
  the same answer. The \<^verbatim>\<open>since\<close> parameter, read from the clock, and the
  concurrency and rate limits around the call are not modelled.
\<close>

datatype request =
    SearchRepositories int
  | RepoCommits json json

type_synonym github = "request \<Rightarrow> py_error + json"

text \<open>
  \<^verbatim>\<open>_make_request\<close> logs and re-raises what the session raised, and returns the decoded
  body otherwise.
\<close>

definition make_request :: "github \<Rightarrow> request \<Rightarrow> py_error + json" where
  "make_request gh req = (case gh req of Inl e \<Rightarrow> Inl e | Inr body \<Rightarrow> Inr body)"

text \<open>
  \<^verbatim>\<open>_get_top_repositories\<close>: \<^verbatim>\<open>data.get("items", [])\<close>, then \<^verbatim>\<open>len(repositories)\<close>
  in the log line.
\<close>

definition get_top_repositories :: "github \<Rightarrow> int \<Rightarrow> py_error + json" where
  "get_top_repositories gh limit =
     (case make_request gh (SearchRepositories limit) of
        Inl e \<Rightarrow> Inl e
      | Inr data \<Rightarrow>
          (case attr_get data ''items'' (JArr []) of
             Inl e \<Rightarrow> Inl e
           | Inr repositories \<Rightarrow>
               (case py_len repositories of
                  Inl e \<Rightarrow> Inl e
                | Inr n \<Rightarrow> Inr repositories)))"

text \<open>\<^verbatim>\<open>_get_repository_commits\<close>: the request, then \<^verbatim>\<open>len(commits)\<close> in the log line.\<close>

definition get_repository_commits :: "github \<Rightarrow> json \<Rightarrow> json \<Rightarrow> py_error + json" where
  "get_repository_commits gh ow repo =
     (case make_request gh (RepoCommits ow repo) of
        Inl e \<Rightarrow> Inl e
      | Inr commits \<Rightarrow>
          (case py_len commits of
             Inl e \<Rightarrow> Inl e
           | Inr n \<Rightarrow> Inr commits))"

section \<open>Processing one repository\<close>

text \<open>
  \<^verbatim>\<open>_process_repository\<close>, in the order the source evaluates: the name with its
  default, the owner's login, the commits request, the count per author, then the
  keyword arguments of \<^verbatim>\<open>Repository(...)\<close> from left to right. The handler of
  KeyError logs and re-raises.
\<close>

definition process_repository :: "github \<Rightarrow> json \<Rightarrow> int \<Rightarrow> py_error + Repository" where
  "process_repository gh repo_data pos =
     (case attr_get repo_data ''name'' (JStr ''UNKNOWN'') of
        Inl e \<Rightarrow> Inl e
      | Inr nm \<Rightarrow>
     (case subscript repo_data ''owner'' of
        Inl e \<Rightarrow> Inl e
      | Inr owner_data \<Rightarrow>
     (case subscript owner_data ''login'' of
        Inl e \<Rightarrow> Inl e
      | Inr ow \<Rightarrow>
     (case get_repository_commits gh ow nm of
        Inl e \<Rightarrow> Inl e
      | Inr commits \<Rightarrow>
     (case aggregate_commits commits of
        Inl e \<Rightarrow> Inl e
      | Inr authors_commits \<Rightarrow>
     (case subscript repo_data ''stargazers_count'' of
        Inl e \<Rightarrow> Inl e
      | Inr st \<Rightarrow>
     (case subscript repo_data ''watchers_count'' of
        Inl e \<Rightarrow> Inl e
      | Inr wa \<Rightarrow>
     (case subscript repo_data ''forks_count'' of
        Inl e \<Rightarrow> Inl e
      | Inr fo \<Rightarrow>
     (case attr_get repo_data ''language'' (JStr ''Unknown'') of
        Inl e \<Rightarrow> Inl e
      | Inr la \<Rightarrow>
          Inr \<lparr>name = nm, owner = ow, position = pos, stars = st, watchers = wa,
               forks = fo, language = la,
               authors_commits_num_today = authors_commits\<rparr>)))))))))"

section \<open>Collecting the repositories\<close>

fun failures :: "(py_error + 'a) list \<Rightarrow> py_error list" where
  "failures [] = []"
| "failures (Inl e # rs) = e # failures rs"
| "failures (Inr x # rs) = failures rs"

fun successes :: "(py_error + 'a) list \<Rightarrow> 'a list" where
  "successes [] = []"
| "successes (Inl e # rs) = successes rs"
| "successes (Inr x # rs) = x # successes rs"

text \<open>
  \<^verbatim>\<open>asyncio.gather(*tasks)\<close>: when every task returns, the list of the results in the
  order of the tasks; otherwise the exception of the task that fails first in time.
  Which of the failing tasks that is depends on the schedule, so it is a parameter:
  \<open>pick\<close> selects among the failures.
\<close>

definition gather :: "nat \<Rightarrow> (py_error + 'a) list \<Rightarrow> py_error + 'a list" where
  "gather pick results =
     (case failures results of
        [] \<Rightarrow> Inr (successes results)
      | e # es \<Rightarrow> Inl ((e # es) ! (pick mod length (e # es))))"

text \<open>
  \<^verbatim>\<open>get_repositories\<close>:
  \<^verbatim>\<open>tasks = [self._process_repository(repo, idx + 1) for idx, repo in enumerate(top_repos)]\<close>
\<close>

definition get_repositories :: "github \<Rightarrow> nat \<Rightarrow> int \<Rightarrow> py_error + Repository list" where
  "get_repositories gh pick limit =
     (case get_top_repositories gh limit of
        Inl e \<Rightarrow> Inl e
      | Inr top_repos \<Rightarrow>
          (case py_iter top_repos of
             Inl e \<Rightarrow> Inl e
           | Inr repos \<Rightarrow>
               gather pick
                 (map (\<lambda>(idx, repo). process_repository gh repo (int idx + 1))
                    (enumerate 0 repos))))"

section \<open>Batched inserts into ClickHouse\<close>

text \<open>
  A row is a Python tuple of values. The ClickHouse client is a parameter: from the
  store, the query and the rows of one \<^verbatim>\<open>execute\<close> call it gives the store after the
  call and the exception the call raised, if any. Every operation returns the store it
  leaves, the \<^verbatim>\<open>execute\<close> calls it issued in order, and the exception it raises.
\<close>

type_synonym row = "json list"

type_synonym insert_call = "string \<times> row list"

type_synonym 's ch_client = "'s \<Rightarrow> string \<Rightarrow> row list \<Rightarrow> 's \<times> py_error option"

text \<open>
  The loop of \<^verbatim>\<open>_execute_query\<close> from index \<open>i\<close> on, for a positive step:
  \<^verbatim>\<open>
  for i in range(0, len(values), batch_size):
      batch = values[i:i + batch_size]
      await self._ch_client.execute(query, *batch)
  \<close>
\<close>

function execute_loop ::
  "'s ch_client \<Rightarrow> string \<Rightarrow> row list \<Rightarrow> nat \<Rightarrow> nat \<Rightarrow> 's \<Rightarrow> 's \<times> insert_call list \<times> py_error option"
where
  "execute_loop ex query vals batch_size i s =
     (if batch_size = 0 \<or> length vals \<le> i then (s, [], None)
      else
        (let batch = take batch_size (drop i vals) in
           (case ex s query batch of
              (s', Some e) \<Rightarrow> (s', [(query, batch)], Some e)
            | (s', None) \<Rightarrow>
                (case execute_loop ex query vals batch_size (i + batch_size) s' of
                   (s'', calls, r) \<Rightarrow> (s'', (query, batch) # calls, r)))))"
  by pat_completeness auto
termination
  by (relation "measure (\<lambda>(ex, query, vals, batch_size, i, s). length vals - i)") auto

declare execute_loop.simps [simp del]

text \<open>
  \<^verbatim>\<open>_execute_query\<close>: \<^verbatim>\<open>range\<close> raises ValueError on a zero step and is empty on a
  negative one; the handler logs and re-raises.
\<close>

definition execute_query ::
  "'s ch_client \<Rightarrow> string \<Rightarrow> row list \<Rightarrow> int \<Rightarrow> 's \<Rightarrow> 's \<times> insert_call list \<times> py_error option"
where
  "execute_query ex query vals batch_size s =
     (if batch_size = 0 then (s, [], Some ValueError)
      else if batch_size < 0 then (s, [], None)
      else execute_loop ex query vals (nat batch_size) 0 s)"

definition repositories_query :: string where
  "repositories_query =
     ''INSERT INTO test.repositories (name, owner, stars, watchers, forks, language, updated) VALUES''"

definition positions_query :: string where
  "positions_query = ''INSERT INTO test.repositories_positions (date, repo, position) VALUES''"

definition commits_query :: string where
  "commits_query =
     ''INSERT INTO test.repositories_authors_commits (date, repo, author, commits_num) VALUES''"

text \<open>The three save operations; \<open>BATCH_SIZE\<close> is the configured batch size.\<close>

definition save_repositories ::
  "'s ch_client \<Rightarrow> int \<Rightarrow> row list \<Rightarrow> 's \<Rightarrow> 's \<times> insert_call list \<times> py_error option"
where
  "save_repositories ex BATCH_SIZE repositories s =
     (if repositories = [] then (s, [], None)
      else execute_query ex repositories_query repositories BATCH_SIZE s)"

definition save_positions ::
  "'s ch_client \<Rightarrow> int \<Rightarrow> row list \<Rightarrow> 's \<Rightarrow> 's \<times> insert_call list \<times> py_error option"
where
  "save_positions ex BATCH_SIZE positions s =
     (if positions = [] then (s, [], None)
      else execute_query ex positions_query positions BATCH_SIZE s)"

definition save_commits ::
  "'s ch_client \<Rightarrow> int \<Rightarrow> row list \<Rightarrow> 's \<Rightarrow> 's \<times> insert_call list \<times> py_error option"
where
  "save_commits ex BATCH_SIZE commits s =
     (if commits = [] then (s, [], None)
      else execute_query ex commits_query commits BATCH_SIZE s)"

section \<open>The run\<close>

text \<open>
  The clock reading of \<^verbatim>\<open>datetime.now(timezone.utc)\<close> and its rendering by
  \<^verbatim>\<open>strftime('%Y-%m-%d %H:%M:%S')\<close>: zero-padded decimal fields down to the second;
  the microsecond is not rendered. (Years are four digits, as every clock reading's.)
\<close>

record datetime =
  year :: nat
  month :: nat
  day :: nat
  hour :: nat
  minute :: nat
  second :: nat
  microsecond :: nat

definition digit :: "nat \<Rightarrow> char" where
  "digit n = ''0123456789'' ! (n mod 10)"

definition pad2 :: "nat \<Rightarrow> string" where
  "pad2 n = [digit (n div 10), digit n]"

definition pad4 :: "nat \<Rightarrow> string" where
  "pad4 n = [digit (n div 1000), digit (n div 100), digit (n div 10), digit n]"

definition strftime :: "datetime \<Rightarrow> string" where
  "strftime d =
     pad4 (year d) @ ''-'' @ pad2 (month d) @ ''-'' @ pad2 (day d) @ '' '' @
     pad2 (hour d) @ '':'' @ pad2 (minute d) @ '':'' @ pad2 (second d)"

text \<open>
  The three lists of tuples \<^verbatim>\<open>main\<close> assembles:
  \<^verbatim>\<open>
  repo_data = [(r.name, r.owner, r.stars, r.watchers, r.forks, r.language, date_today) for r in repos_data]
  positions_data = [(date_today, r.name, r.position) for r in repos_data]
  commits_data = [(date_today, r.name, ac.author, ac.commits_num)
                  for r in repos_data for ac in r.authors_commits_num_today]
  \<close>
\<close>

definition repo_data :: "string \<Rightarrow> Repository list \<Rightarrow> row list" where
  "repo_data date_today repos_data =
     map (\<lambda>r. [name r, owner r, stars r, watchers r, forks r, language r, JStr date_today])
       repos_data"

definition positions_data :: "string \<Rightarrow> Repository list \<Rightarrow> row list" where
  "positions_data date_today repos_data =
     map (\<lambda>r. [JStr date_today, name r, JInt (position r)]) repos_data"

definition commits_data :: "string \<Rightarrow> Repository list \<Rightarrow> row list" where
  "commits_data date_today repos_data =
     concat (map (\<lambda>r. map (\<lambda>ac. [JStr date_today, name r, author ac, JInt (commits_num ac)])
                          (authors_commits_num_today r))
                 repos_data)"

fun outcome :: "py_error option \<Rightarrow> py_error + unit" where
  "outcome None = Inr ()"
| "outcome (Some e) = Inl e"

text \<open>
  \<^verbatim>\<open>asyncio.gather\<close> of the three saves. They write three different tables; the model
  runs them one after the other in the order of the arguments, each to its end, and
  raises the exception of one of those that failed. How the schedule interleaves their
  calls, and what the failure of one cuts short in the others, is not modelled.
\<close>

definition save_all ::
  "'s ch_client \<Rightarrow> int \<Rightarrow> nat \<Rightarrow> row list \<Rightarrow> row list \<Rightarrow> row list \<Rightarrow> 's
     \<Rightarrow> 's \<times> insert_call list \<times> py_error option"
where
  "save_all ex BATCH_SIZE pick repositories positions commits s =
     (case save_repositories ex BATCH_SIZE repositories s of
        (s1, calls1, r1) \<Rightarrow>
     (case save_positions ex BATCH_SIZE positions s1 of
        (s2, calls2, r2) \<Rightarrow>
     (case save_commits ex BATCH_SIZE commits s2 of
        (s3, calls3, r3) \<Rightarrow>
          (s3, calls1 @ calls2 @ calls3,
           (case gather pick [outcome r1, outcome r2, outcome r3] of
              Inl e \<Rightarrow> Some e
            | Inr done \<Rightarrow> None)))))"

text \<open>
  \<^verbatim>\<open>main\<close>: an exception of \<^verbatim>\<open>get_repositories\<close> leaves the \<^verbatim>\<open>try\<close> block before
  the clock is read and before any save is called. \<open>REPOSITORY_LIMIT\<close> and
  \<open>BATCH_SIZE\<close> are the configured values, \<open>now\<close> the clock reading of line 151,
  \<open>pick\<close> and \<open>pick'\<close> the schedule's choices in the two \<^verbatim>\<open>gather\<close> calls. The result
  is the store the run leaves, the \<^verbatim>\<open>execute\<close> calls it issued and the exception it
  ends with.
\<close>

definition main ::
  "github \<Rightarrow> nat \<Rightarrow> 's ch_client \<Rightarrow> nat \<Rightarrow> int \<Rightarrow> int \<Rightarrow> datetime \<Rightarrow> 's
     \<Rightarrow> 's \<times> insert_call list \<times> py_error option"
where
  "main gh pick ex pick' REPOSITORY_LIMIT BATCH_SIZE now s =
     (case get_repositories gh pick REPOSITORY_LIMIT of
        Inl e \<Rightarrow> (s, [], Some e)
      | Inr repos_data \<Rightarrow>
          (let date_today = strftime now in
             save_all ex BATCH_SIZE pick'
               (repo_data date_today repos_data)
               (positions_data date_today repos_data)
               (commits_data date_today repos_data) s))"

section \<open>Notions used to state the properties\<close>

text \<open>
  A commit the loop counts: a dictionary whose \<^verbatim>\<open>commit.get("author")\<close> is truthy.
\<close>

definition attributed :: "json \<Rightarrow> bool" where
  "attributed commit =
     (case commit of JObj c \<Rightarrow> truthy (dict_get c ''author'' JNull) | _ \<Rightarrow> False)"

text \<open>
  The key a counted commit is counted under:
  \<^verbatim>\<open>commit["author"].get("login", "unknown")\<close>.
\<close>

definition login_of :: "json \<Rightarrow> json" where
  "login_of commit =
     (case commit of
        JObj c \<Rightarrow>
          (case dict_get c ''author'' JNull of
             JObj a \<Rightarrow> dict_get a ''login'' (JStr ''unknown'')
           | _ \<Rightarrow> JNull)
      | _ \<Rightarrow> JNull)"

text \<open>
  A commit record the loop passes without raising: a dictionary whose author is falsy
  (absent, \<^verbatim>\<open>None\<close>, empty), or a dictionary with a hashable login.
\<close>

definition countable_commit :: "json \<Rightarrow> bool" where
  "countable_commit commit =
     (case commit of
        JObj c \<Rightarrow>
          (case dict_get c ''author'' JNull of
             JObj a \<Rightarrow> a = [] \<or> hashable (dict_get a ''login'' (JStr ''unknown''))
           | v \<Rightarrow> \<not> truthy v)
      | _ \<Rightarrow> False)"

text \<open>No two keys of the dictionary are equal as keys.\<close>

fun distinct_keys :: "authors_dict \<Rightarrow> bool" where
  "distinct_keys [] = True"
| "distinct_keys ((k, v) # rest) =
     ((\<forall>p \<in> set rest. \<not> key_eq k (fst p)) \<and> distinct_keys rest)"

text \<open>
  The commits of the specification's example: two by \<open>a\<close>, one without an author, one
  by \<open>b\<close>, in the shape the API returns them (\<^verbatim>\<open>author.login\<close>).
\<close>

definition ex_commits :: "json list" where
  "ex_commits =
     [JObj [(''author'', JObj [(''login'', JStr ''a'')])],
      JObj [(''author'', JObj [(''login'', JStr ''a'')])],
      JObj [(''author'', JNull)],
      JObj [(''author'', JObj [(''login'', JStr ''b'')])]]"

text \<open>
  The chunks of a list for a batch size \<open>b\<close>: the \<open>k\<close>-th chunk is the slice from
  index \<open>k * b\<close> of at most \<open>b\<close> elements, and there are \<open>\<lceil>n / b\<rceil>\<close> of them
  (\<open>(n + b - 1) div b\<close> on the natural numbers).
\<close>

definition chunks :: "nat \<Rightarrow> 'a list \<Rightarrow> 'a list list" where
  "chunks b vs = map (\<lambda>k. take b (drop (k * b) vs)) [0..<(length vs + b - 1) div b]"

text \<open>
  The store after the client executed the inserts of the batches \<open>cs\<close> one after the
  other, whatever each of them raised.
\<close>

definition store_after :: "'s ch_client \<Rightarrow> string \<Rightarrow> row list list \<Rightarrow> 's \<Rightarrow> 's" where
  "store_after ex query cs s = foldl (\<lambda>s' c. fst (ex s' query c)) s cs"

text \<open>
  The inserts of a list of batches in order, stopping at the first that raises; and the
  slices the loop of \<^verbatim>\<open>_execute_query\<close> takes from index \<open>i\<close> on. The loop is the one
  run on the other.
\<close>

fun run_batches ::
  "'s ch_client \<Rightarrow> string \<Rightarrow> row list list \<Rightarrow> 's \<Rightarrow> 's \<times> insert_call list \<times> py_error option"
where
  "run_batches ex query [] s = (s, [], None)"
| "run_batches ex query (c # cs) s =
     (case ex s query c of
        (s', Some e) \<Rightarrow> (s', [(query, c)], Some e)
      | (s', None) \<Rightarrow>
          (case run_batches ex query cs s' of
             (s'', calls, r) \<Rightarrow> (s'', (query, c) # calls, r)))"

function slices :: "nat \<Rightarrow> nat \<Rightarrow> 'a list \<Rightarrow> 'a list list" where
  "slices b i vs =
     (if b = 0 \<or> length vs \<le> i then [] else take b (drop i vs) # slices b (i + b) vs)"
  by pat_completeness auto
termination
  by (relation "measure (\<lambda>(b, i, vs). length vs - i)") auto

declare slices.simps [simp del]

text \<open>The three save operations, each with the statement it inserts with.\<close>

definition save_ops ::
  "(('s ch_client \<Rightarrow> int \<Rightarrow> row list \<Rightarrow> 's \<Rightarrow> 's \<times> insert_call list \<times> py_error option) \<times> string) list"
where
  "save_ops =
     [(save_repositories, repositories_query),
      (save_positions, positions_query),
      (save_commits, commits_query)]"

text \<open>
  A client for the examples: the store is the list of the rows written; an insert whose
  batch holds the row \<^verbatim>\<open>(None,)\<close> raises and writes nothing.
\<close>

definition ex_client :: "(row list) ch_client" where
  "ex_client st query batch =
     (if [JNull] \<in> set batch then (st, Some (ChClientError ''bad row''))
      else (st @ batch, None))"

definition good_rows :: "row list" where
  "good_rows = [[JInt 1], [JInt 2], [JInt 3], [JInt 4], [JInt 5]]"

definition bad_rows :: "row list" where
  "bad_rows = [[JInt 1], [JInt 2], [JInt 3], [JInt 4], [JNull], [JInt 6], [JInt 7]]"

text \<open>
  Example data: a first repository with a null language, a second one without name and
  language and with more stars than the first, a third one without
  \<^verbatim>\<open>stargazers_count\<close>; a remote side that lists the first two, and one that lists the
  first and the third; both answer every commits request with the example commits.
\<close>

definition ex_fields1 :: "(string \<times> json) list" where
  "ex_fields1 =
     [(''name'', JStr ''linux''),
      (''owner'', JObj [(''login'', JStr ''torvalds'')]),
      (''stargazers_count'', JInt 3),
      (''watchers_count'', JInt 3),
      (''forks_count'', JInt 1),
      (''language'', JNull)]"

definition ex_repo1 :: json where
  "ex_repo1 = JObj ex_fields1"

definition ex_fields2 :: "(string \<times> json) list" where
  "ex_fields2 =
     [(''owner'', JObj [(''login'', JStr ''octocat'')]),
      (''stargazers_count'', JInt 5),
      (''watchers_count'', JInt 5),
      (''forks_count'', JInt 2)]"

definition ex_repo2 :: json where
  "ex_repo2 = JObj ex_fields2"


definition ex_github :: github where
  "ex_github req =
     (case req of
        SearchRepositories n \<Rightarrow> Inr (JObj [(''items'', JArr [ex_repo1, ex_repo2])])
      | RepoCommits ow repo \<Rightarrow> Inr (JArr ex_commits))"





definition ex_github_404 :: github where
  "ex_github_404 req =
     (case req of
        SearchRepositories n \<Rightarrow> Inr (JObj [(''items'', JArr [ex_repo1, ex_repo2])])
      | RepoCommits ow repo \<Rightarrow>
          (if repo = JStr ''UNKNOWN'' then Inl (ClientError ''404'')
           else Inr (JArr ex_commits)))"

definition ex_now :: datetime where
  "ex_now = \<lparr>year = 2026, month = 11, day = 3, hour = 7, minute = 5, second = 9,
             microsecond = 123456\<rparr>"




text \<open>
  The column of the timestamp in the rows of each statement: \<^verbatim>\<open>updated\<close> is the last of
  the seven columns of \<^verbatim>\<open>test.repositories\<close>, \<^verbatim>\<open>date\<close> the first of the other two
  tables.
\<close>

definition timestamp_column :: "string \<Rightarrow> nat" where
  "timestamp_column query = (if query = repositories_query then 6 else 0)"

section \<open>Properties of the commit count\<close>

lemma key_eq_refl: "key_eq a a"
  by (cases a) (auto simp: key_eq_def)

lemma key_eq_sym: "key_eq a b \<Longrightarrow> key_eq b a"
  by (cases a; cases b) (auto simp: key_eq_def split: if_splits)

lemma key_eq_trans: "key_eq a b \<Longrightarrow> key_eq b c \<Longrightarrow> key_eq a c"
  by (cases a; cases b; cases c) (auto simp: key_eq_def split: if_splits)

lemma authors_get_cong: "key_eq k k' \<Longrightarrow> authors_get d k x = authors_get d k' x"
  by (induction d) (auto, (meson key_eq_trans key_eq_sym)+)

lemma authors_get_set:
  "authors_get (authors_set d k v) k' x = (if key_eq k k' then v else authors_get d k' x)"
  by (induction d) (auto, (meson key_eq_trans key_eq_sym)+)

lemma sum_authors_set:
  "sum_list (map snd (authors_set d k v)) = sum_list (map snd d) - authors_get d k 0 + v"
  by (induction d) auto

lemma count_step:
  "count_authors (c # cs) d = Inr d' \<Longrightarrow>
     countable_commit c \<and>
     (if attributed c
      then count_authors cs (authors_set d (login_of c) (authors_get d (login_of c) 0 + 1)) = Inr d'
      else count_authors cs d = Inr d')"
  by (cases c) (auto simp: attributed_def login_of_def countable_commit_def
       split: sum.splits if_splits json.splits)

lemma count_step_ok:
  "countable_commit c \<Longrightarrow>
     count_authors (c # cs) d =
     (if attributed c
      then count_authors cs (authors_set d (login_of c) (authors_get d (login_of c) 0 + 1))
      else count_authors cs d)"
  by (cases c) (auto simp: attributed_def login_of_def countable_commit_def
       split: sum.splits if_splits json.splits)

lemma fst_authors_set:
  "p \<in> set (authors_set d k v) \<Longrightarrow> fst p \<in> fst ` set d \<or> fst p = k"
  by (induction d) (auto split: if_splits)

lemma distinct_keys_set: "distinct_keys d \<Longrightarrow> distinct_keys (authors_set d k v)"
proof (induction d)
  case Nil
  then show ?case by simp
next
  case (Cons a d)
  obtain k' v' where a: "a = (k', v')" by (cases a)
  show ?case
  proof (cases "key_eq k' k")
    case True
    with Cons a show ?thesis by simp
  next
    case False
    have "\<not> key_eq k' (fst p)" if "p \<in> set (authors_set d k v)" for p
      using fst_authors_set[OF that] Cons.prems a False by auto
    with Cons a False show ?thesis by simp
  qed
qed

lemma count_authors_get:
  "count_authors cs d = Inr d' \<Longrightarrow>
     authors_get d' k 0 =
     authors_get d k 0 + int (length (filter (\<lambda>c. attributed c \<and> key_eq (login_of c) k) cs))"
proof (induction cs arbitrary: d)
  case Nil
  then show ?case by simp
next
  case (Cons c cs)
  note st = count_step[OF Cons.prems]
  show ?case
  proof (cases "attributed c")
    case True
    with st have "count_authors cs (authors_set d (login_of c) (authors_get d (login_of c) 0 + 1)) = Inr d'"
      by simp
    from Cons.IH[OF this] True show ?thesis
      by (auto simp: authors_get_set authors_get_cong)
  next
    case False
    with st have "count_authors cs d = Inr d'" by simp
    from Cons.IH[OF this] False show ?thesis by simp
  qed
qed

lemma count_authors_sum:
  "count_authors cs d = Inr d' \<Longrightarrow>
     sum_list (map snd d') = sum_list (map snd d) + int (length (filter attributed cs))"
proof (induction cs arbitrary: d)
  case Nil
  then show ?case by simp
next
  case (Cons c cs)
  note st = count_step[OF Cons.prems]
  show ?case
  proof (cases "attributed c")
    case True
    with st have "count_authors cs (authors_set d (login_of c) (authors_get d (login_of c) 0 + 1)) = Inr d'"
      by simp
    from Cons.IH[OF this] True show ?thesis
      by (simp add: sum_authors_set)
  next
    case False
    with st have "count_authors cs d = Inr d'" by simp
    from Cons.IH[OF this] False show ?thesis by simp
  qed
qed

lemma count_authors_distinct:
  "count_authors cs d = Inr d' \<Longrightarrow> distinct_keys d \<Longrightarrow> distinct_keys d'"
proof (induction cs arbitrary: d)
  case Nil
  then show ?case by simp
next
  case (Cons c cs)
  note st = count_step[OF Cons.prems(1)]
  show ?case
  proof (cases "attributed c")
    case True
    with st have "count_authors cs (authors_set d (login_of c) (authors_get d (login_of c) 0 + 1)) = Inr d'"
      by simp
    from Cons.IH[OF this distinct_keys_set[OF Cons.prems(2)]] show ?thesis .
  next
    case False
    with st have "count_authors cs d = Inr d'" by simp
    from Cons.IH[OF this Cons.prems(2)] show ?thesis .
  qed
qed

lemma count_authors_keys:
  "count_authors cs d = Inr d' \<Longrightarrow> p \<in> set d' \<Longrightarrow>
     fst p \<in> fst ` set d \<or> (\<exists>c \<in> set cs. attributed c \<and> login_of c = fst p)"
proof (induction cs arbitrary: d)
  case Nil
  then show ?case by auto
next
  case (Cons c cs)
  note st = count_step[OF Cons.prems(1)]
  show ?case
  proof (cases "attributed c")
    case True
    with st have "count_authors cs (authors_set d (login_of c) (authors_get d (login_of c) 0 + 1)) = Inr d'"
      by simp
    from Cons.IH[OF this Cons.prems(2)] True show ?thesis
      using fst_authors_set by fastforce
  next
    case False
    with st have "count_authors cs d = Inr d'" by simp
    from Cons.IH[OF this Cons.prems(2)] show ?thesis by auto
  qed
qed

lemma count_authors_total:
  "\<forall>c \<in> set cs. countable_commit c \<Longrightarrow> \<exists>d'. count_authors cs d = Inr d'"
proof (induction cs arbitrary: d)
  case Nil
  then show ?case by simp
next
  case (Cons c cs)
  then show ?case by (simp add: count_step_ok del: count_authors.simps)
qed

lemma authors_get_distinct:
  "distinct_keys d \<Longrightarrow> (k, v) \<in> set d \<Longrightarrow> authors_get d k x = v"
  by (induction d) (fastforce simp: key_eq_refl)+

lemma authors_get_nonzero:
  "authors_get d k 0 \<noteq> 0 \<Longrightarrow> \<exists>p \<in> set d. key_eq (fst p) k"
  by (induction d) (auto split: if_splits)

lemma distinct_keys_nth:
  "distinct_keys d \<Longrightarrow> i < j \<Longrightarrow> j < length d \<Longrightarrow> \<not> key_eq (fst (d ! i)) (fst (d ! j))"
proof (induction d arbitrary: i j)
  case Nil
  then show ?case by simp
next
  case (Cons a d)
  obtain k v where a: "a = (k, v)" by (cases a)
  from Cons.prems obtain j' where j: "j = Suc j'" by (cases j) auto
  show ?case
  proof (cases i)
    case 0
    with Cons.prems a j show ?thesis by auto
  next
    case (Suc i')
    with Cons.prems a j Cons.IH[of i' j'] show ?thesis by auto
  qed
qed

lemma author_of [simp]: "author (case p of (a, c) \<Rightarrow> \<lparr>author = a, commits_num = c\<rparr>) = fst p"
  by (cases p) simp

lemma commits_num_of [simp]:
  "commits_num (case p of (a, c) \<Rightarrow> \<lparr>author = a, commits_num = c\<rparr>) = snd p"
  by (cases p) simp

text \<open>
  C1, as the code has it. The aggregation of an empty list is empty. For every list of
  commit records the loop passes (dictionaries whose author is falsy or a dictionary
  with a hashable login) the aggregation returns, and: the counts add up to the number
  of commits with a truthy author; every emitted entry has a positive count, the number
  of those commits whose login (\<open>unknown\<close> when the author object has no login key)
  equals the entry's author as a key; every such commit is covered by an entry; and
  no two entries have the same key. Commits whose author is absent, \<^verbatim>\<open>None\<close> or
  otherwise falsy are skipped by the guard of the loop: they are in no bucket. On the
  example the counts are a: 2 and b: 1.
\<close>

theorem aggregate_commits_counts_attributed:
  "aggregate_commits (JArr []) = Inr []
   \<and> aggregate_commits (JArr ex_commits) =
       Inr [\<lparr>author = JStr ''a'', commits_num = 2\<rparr>, \<lparr>author = JStr ''b'', commits_num = 1\<rparr>]
   \<and> ((\<forall>c \<in> set cs. countable_commit c) \<longrightarrow>
        (\<exists>acs. aggregate_commits (JArr cs) = Inr acs
           \<and> sum_list (map commits_num acs) = int (length (filter attributed cs))
           \<and> (\<forall>ac \<in> set acs. 0 < commits_num ac
                 \<and> commits_num ac =
                     int (length (filter (\<lambda>c. attributed c \<and> key_eq (login_of c) (author ac)) cs)))
           \<and> (\<forall>c \<in> set cs. attributed c \<longrightarrow> (\<exists>ac \<in> set acs. key_eq (author ac) (login_of c)))
           \<and> (\<forall>i j. i < j \<and> j < length acs \<longrightarrow> \<not> key_eq (author (acs ! i)) (author (acs ! j)))))"
proof (intro conjI impI)
  show "aggregate_commits (JArr []) = Inr []"
    by (simp add: aggregate_commits_def authors_commits_of_def)
next
  show "aggregate_commits (JArr ex_commits) =
       Inr [\<lparr>author = JStr ''a'', commits_num = 2\<rparr>, \<lparr>author = JStr ''b'', commits_num = 1\<rparr>]"
    by (simp add: ex_commits_def aggregate_commits_def authors_commits_of_def dict_get_def
          key_eq_def)
next
  assume wf: "\<forall>c \<in> set cs. countable_commit c"
  from count_authors_total[OF wf] obtain d where d: "count_authors cs [] = Inr d" by blast
  define acs where "acs = authors_commits_of d"
  have agg: "aggregate_commits (JArr cs) = Inr acs"
    by (simp add: aggregate_commits_def d acs_def)
  have dk: "distinct_keys d"
    using count_authors_distinct[OF d] by simp
  have cnt: "authors_get d k 0 = int (length (filter (\<lambda>c. attributed c \<and> key_eq (login_of c) k) cs))" for k
    using count_authors_get[OF d, of k] by simp
  have total: "sum_list (map commits_num acs) = int (length (filter attributed cs))"
    using count_authors_sum[OF d] by (simp add: acs_def authors_commits_of_def comp_def)
  have each: "0 < snd p \<and> snd p = int (length (filter (\<lambda>c. attributed c \<and> key_eq (login_of c) (fst p)) cs))"
    if p: "p \<in> set d" for p
  proof -
    have v: "authors_get d (fst p) 0 = snd p"
      using authors_get_distinct[OF dk, of "fst p" "snd p"] p by simp
    from count_authors_keys[OF d p] obtain c where c: "c \<in> set cs" "attributed c" "login_of c = fst p"
      by auto
    have "c \<in> set (filter (\<lambda>c. attributed c \<and> key_eq (login_of c) (fst p)) cs)"
      using c by (simp add: key_eq_refl)
    then have "0 < length (filter (\<lambda>c. attributed c \<and> key_eq (login_of c) (fst p)) cs)"
      by (metis length_pos_if_in_set)
    then have "0 < int (length (filter (\<lambda>c. attributed c \<and> key_eq (login_of c) (fst p)) cs))"
      by linarith
    with v cnt[of "fst p"] show ?thesis by (simp del: of_nat_0_less_iff length_greater_0_conv)
  qed
  have groups: "\<forall>ac \<in> set acs. 0 < commits_num ac
     \<and> commits_num ac = int (length (filter (\<lambda>c. attributed c \<and> key_eq (login_of c) (author ac)) cs))"
  proof
    fix ac
    assume "ac \<in> set acs"
    then obtain p where p: "p \<in> set d" "ac = (case p of (a, c) \<Rightarrow> \<lparr>author = a, commits_num = c\<rparr>)"
      by (auto simp: acs_def authors_commits_of_def)
    have a: "author ac = fst p" and n: "commits_num ac = snd p"
      using p(2) by simp_all
    show "0 < commits_num ac
      \<and> commits_num ac = int (length (filter (\<lambda>c. attributed c \<and> key_eq (login_of c) (author ac)) cs))"
      unfolding a n by (rule each[OF p(1)])
  qed
  have covered: "\<exists>ac \<in> set acs. key_eq (author ac) (login_of c)" if c: "c \<in> set cs" "attributed c" for c
  proof -
    have "c \<in> set (filter (\<lambda>c'. attributed c' \<and> key_eq (login_of c') (login_of c)) cs)"
      using c by (simp add: key_eq_refl)
    then have "0 < length (filter (\<lambda>c'. attributed c' \<and> key_eq (login_of c') (login_of c)) cs)"
      by (metis length_pos_if_in_set)
    with cnt[of "login_of c"] have "authors_get d (login_of c) 0 \<noteq> 0" by simp
    from authors_get_nonzero[OF this] obtain p where "p \<in> set d" "key_eq (fst p) (login_of c)"
      by blast
    then show ?thesis
      by (auto simp: acs_def authors_commits_of_def intro!: bexI[of _ p])
  qed
  have apart: "\<forall>i j. i < j \<and> j < length acs \<longrightarrow> \<not> key_eq (author (acs ! i)) (author (acs ! j))"
    using distinct_keys_nth[OF dk] by (auto simp: acs_def authors_commits_of_def)
  from agg total groups covered apart
  show "\<exists>acs. aggregate_commits (JArr cs) = Inr acs
           \<and> sum_list (map commits_num acs) = int (length (filter attributed cs))
           \<and> (\<forall>ac \<in> set acs. 0 < commits_num ac
                 \<and> commits_num ac =
                     int (length (filter (\<lambda>c. attributed c \<and> key_eq (login_of c) (author ac)) cs)))
           \<and> (\<forall>c \<in> set cs. attributed c \<longrightarrow> (\<exists>ac \<in> set acs. key_eq (author ac) (login_of c)))
           \<and> (\<forall>i j. i < j \<and> j < length acs \<longrightarrow> \<not> key_eq (author (acs ! i)) (author (acs ! j)))"
    by blast
qed

text \<open>
  The specification's example: the commit without an author is dropped, not counted
  under \<open>unknown\<close>; the counts are a: 2 and b: 1, and their sum is 3 for 4 records.
\<close>

theorem aggregate_commits_drops_unattributed:
  "aggregate_commits (JArr ex_commits) =
     Inr [\<lparr>author = JStr ''a'', commits_num = 2\<rparr>, \<lparr>author = JStr ''b'', commits_num = 1\<rparr>]
   \<and> sum_list (map commits_num
        [\<lparr>author = JStr ''a'', commits_num = 2\<rparr>, \<lparr>author = JStr ''b'', commits_num = 1\<rparr>])
       \<noteq> int (length ex_commits)"
  by (simp add: ex_commits_def aggregate_commits_def authors_commits_of_def dict_get_def key_eq_def)

theorem aggregate_commits_counts_attributed_witness:
  "list_all countable_commit ex_commits
   \<and> length (filter attributed ex_commits) = 3
   \<and> (\<exists>acs. aggregate_commits (JArr ex_commits) = Inr acs
          \<and> sum_list (map commits_num acs) = 3)"
proof -
  have wf: "\<forall>c \<in> set ex_commits. countable_commit c"
    by (simp add: ex_commits_def countable_commit_def dict_get_def)
  have n: "length (filter attributed ex_commits) = 3"
    by (simp add: ex_commits_def attributed_def dict_get_def)
  from aggregate_commits_counts_attributed[of ex_commits] wf n
  have "\<exists>acs. aggregate_commits (JArr ex_commits) = Inr acs
          \<and> sum_list (map commits_num acs) = 3"
    by auto
  with wf n show ?thesis
    by (simp add: list_all_iff)
qed

section \<open>Properties of the batched inserts\<close>

text \<open>
  C4. Each of the three save operations, called with an empty list, returns at once:
  it issues no \<^verbatim>\<open>execute\<close> call, raises nothing and leaves the store as it was,
  whatever the client and the batch size are.
\<close>

theorem save_empty_is_noop:
  "save_repositories ex BATCH_SIZE [] s = (s, [], None)
   \<and> save_positions ex BATCH_SIZE [] s = (s, [], None)
   \<and> save_commits ex BATCH_SIZE [] s = (s, [], None)"
  by (simp add: save_repositories_def save_positions_def save_commits_def)

lemma ceil_step:
  assumes b: "0 < (b::nat)" and i: "i < n"
  shows "(n - i + b - 1) div b = Suc ((n - (i + b) + b - 1) div b)"
proof (cases "i + b \<le> n")
  case True
  define m where "m = n - (i + b) + b - 1"
  have "n - i + b - 1 = m + b"
    unfolding m_def using True b by linarith
  moreover have "(m + b) div b = Suc (m div b)"
  proof -
    have "b \<noteq> 0" using b by simp
    then have "(m + b) div b = m div b + 1" by (rule div_add_self2)
    then show ?thesis by simp
  qed
  ultimately show ?thesis
    unfolding m_def by (simp only:)
next
  case False
  have a: "n - (i + b) + b - 1 = b - 1"
    using False by linarith
  have lo: "b * 1 \<le> n - i + b - 1"
    using i by linarith
  have hi: "n - i + b - 1 < b * Suc 1"
    using False b by (simp only: mult_Suc_right mult_1_right)
  have "(n - i + b - 1) div b = 1"
    using lo hi by (rule div_nat_eqI)
  moreover have "(b - 1) div b = 0"
    using b by (intro div_less) linarith
  ultimately show ?thesis
    by (simp only: a)
qed

lemma loop_is_run:
  "execute_loop ex query vs b i s = run_batches ex query (slices b i vs) s"
proof (induction ex query vs b i s rule: execute_loop.induct)
  case (1 ex query vals batch_size i s)
  show ?case
  proof (cases "batch_size = 0 \<or> length vals \<le> i")
    case True
    then show ?thesis
      by (subst execute_loop.simps, subst slices.simps) simp
  next
    case False
    obtain s' r where ex: "ex s query (take batch_size (drop i vals)) = (s', r)"
      by (cases "ex s query (take batch_size (drop i vals))")
    show ?thesis
    proof (cases r)
      case None
      with False ex 1[OF False refl ex[symmetric, unfolded None] refl] show ?thesis
        by (subst execute_loop.simps, subst slices.simps) (simp add: Let_def)
    next
      case (Some e)
      with False ex show ?thesis
        by (subst execute_loop.simps, subst slices.simps) (simp add: Let_def)
    qed
  qed
qed

lemma length_slices:
  "0 < b \<Longrightarrow> length (slices b i vs) = (length vs - i + b - 1) div b"
proof (induction b i vs rule: slices.induct)
  case (1 b i vs)
  show ?case
  proof (cases "length vs \<le> i")
    case True
    have "(length vs - i + b - 1) div b = 0"
      using True 1(2) by (intro div_less) linarith
    with True show ?thesis
      by (subst slices.simps) simp
  next
    case False
    then have i: "i < length vs" by simp
    have "length (slices b i vs) = Suc (length (slices b (i + b) vs))"
      using False 1(2) by (subst slices.simps) simp
    also have "\<dots> = Suc ((length vs - (i + b) + b - 1) div b)"
      using 1(1) False 1(2) by simp
    also have "\<dots> = (length vs - i + b - 1) div b"
      using ceil_step[OF 1(2) i] by simp
    finally show ?thesis .
  qed
qed

lemma nth_slices:
  "0 < b \<Longrightarrow> k < length (slices b i vs) \<Longrightarrow> slices b i vs ! k = take b (drop (i + k * b) vs)"
proof (induction b i vs arbitrary: k rule: slices.induct)
  case (1 b i vs)
  show ?case
  proof (cases "length vs \<le> i")
    case True
    with 1(3) show ?thesis by (subst (asm) slices.simps) simp
  next
    case False
    have unf: "slices b i vs = take b (drop i vs) # slices b (i + b) vs"
      using False 1(2) by (subst slices.simps) simp
    show ?thesis
    proof (cases k)
      case 0
      then show ?thesis by (simp add: unf)
    next
      case (Suc k')
      with 1(3) unf have "k' < length (slices b (i + b) vs)" by simp
      from 1(1)[OF _ 1(2) this] False 1(2)
      have "slices b (i + b) vs ! k' = take b (drop (i + b + k' * b) vs)" by simp
      with Suc unf show ?thesis by (simp add: add.assoc)
    qed
  qed
qed

lemma concat_slices:
  "0 < b \<Longrightarrow> concat (slices b i vs) = drop i vs"
proof (induction b i vs rule: slices.induct)
  case (1 b i vs)
  show ?case
  proof (cases "length vs \<le> i")
    case True
    then show ?thesis by (subst slices.simps) simp
  next
    case False
    have unf: "slices b i vs = take b (drop i vs) # slices b (i + b) vs"
      using False 1(2) by (subst slices.simps) simp
    have "concat (slices b (i + b) vs) = drop (i + b) vs"
      using 1(1) False 1(2) by simp
    then show ?thesis
      by (simp add: unf add.commute[of i b] drop_drop[symmetric] del: drop_drop)
  qed
qed

lemma slices_chunks: "0 < b \<Longrightarrow> slices b 0 vs = chunks b vs"
  by (rule nth_equalityI) (simp_all add: length_slices chunks_def nth_slices)

lemma store_after_Cons:
  "store_after ex query (c # cs) s = store_after ex query cs (fst (ex s query c))"
  by (simp add: store_after_def)

lemma store_after_Nil: "store_after ex query [] s = s"
  by (simp add: store_after_def)

lemma run_none:
  "run_batches ex query cs s = (s', calls, None) \<Longrightarrow>
     calls = map (Pair query) cs \<and> s' = store_after ex query cs s"
proof (induction cs arbitrary: s s' calls)
  case Nil
  then show ?case by (simp add: store_after_Nil)
next
  case (Cons c cs)
  obtain s1 r1 where e: "ex s query c = (s1, r1)" by (cases "ex s query c")
  obtain s2 calls2 r2 where r: "run_batches ex query cs s1 = (s2, calls2, r2)"
    by (cases "run_batches ex query cs s1")
  from Cons.prems e r have "r1 = None" "r2 = None" "s' = s2" "calls = (query, c) # calls2"
    by (auto split: option.splits)
  with Cons.IH[of s1 s2 calls2] r e show ?case
    by (simp add: store_after_Cons)
qed

lemma run_never_fails:
  "(\<forall>s c. snd (ex s query c) = None) \<Longrightarrow>
     run_batches ex query cs s = (store_after ex query cs s, map (Pair query) cs, None)"
proof (induction cs arbitrary: s)
  case Nil
  then show ?case by (simp add: store_after_Nil)
next
  case (Cons c cs)
  obtain s1 r1 where e: "ex s query c = (s1, r1)" by (cases "ex s query c")
  with Cons.prems have "r1 = None" by (metis snd_conv)
  with Cons.IH[OF Cons.prems, of s1] e show ?case
    by (simp add: store_after_Cons)
qed

lemma run_fail:
  "i < length cs \<Longrightarrow>
   (\<forall>j<i. snd (ex (store_after ex query (take j cs) s) query (cs ! j)) = None) \<Longrightarrow>
   snd (ex (store_after ex query (take i cs) s) query (cs ! i)) = Some e \<Longrightarrow>
   run_batches ex query cs s =
     (store_after ex query (take (Suc i) cs) s, map (Pair query) (take (Suc i) cs), Some e)"
proof (induction cs arbitrary: i s)
  case Nil
  then show ?case by simp
next
  case (Cons c cs)
  obtain s1 r1 where e: "ex s query c = (s1, r1)" by (cases "ex s query c")
  show ?case
  proof (cases i)
    case 0
    with Cons.prems(3) e have "r1 = Some e" by (simp add: store_after_Nil)
    with 0 e show ?thesis by (simp add: store_after_Cons store_after_Nil)
  next
    case (Suc i')
    from Cons.prems(2)[rule_format, of 0] Suc e have r1: "r1 = None"
      by (simp add: store_after_Nil)
    have a: "i' < length cs" using Cons.prems(1) Suc by simp
    have b: "\<forall>j<i'. snd (ex (store_after ex query (take j cs) s1) query (cs ! j)) = None"
    proof (intro allI impI)
      fix j assume "j < i'"
      with Cons.prems(2)[rule_format, of "Suc j"] Suc e show
        "snd (ex (store_after ex query (take j cs) s1) query (cs ! j)) = None"
        by (simp add: store_after_Cons)
    qed
    have c: "snd (ex (store_after ex query (take i' cs) s1) query (cs ! i')) = Some e"
      using Cons.prems(3) Suc e by (simp add: store_after_Cons)
    from Cons.IH[OF a b c] Suc e r1 show ?thesis
      by (simp add: store_after_Cons)
  qed
qed

lemma chunks_Nil: "chunks b [] = []"
  by (cases b) (simp_all add: chunks_def)

lemma save_is_run:
  assumes "0 < BATCH_SIZE" and "(save, query) \<in> set save_ops"
  shows "save ex BATCH_SIZE vs s = run_batches ex query (chunks (nat BATCH_SIZE) vs) s"
proof -
  have q: "execute_query ex query vs BATCH_SIZE s = run_batches ex query (chunks (nat BATCH_SIZE) vs) s"
    using assms(1) by (simp add: execute_query_def loop_is_run slices_chunks)
  have "save ex BATCH_SIZE vs s =
          (if vs = [] then (s, [], None) else execute_query ex query vs BATCH_SIZE s)"
    using assms(2)
    by (auto simp: save_ops_def save_repositories_def save_positions_def save_commits_def)
  with q show ?thesis
    by (simp add: chunks_Nil)
qed

lemma concat_chunks: "0 < b \<Longrightarrow> concat (chunks b vs) = vs"
  using concat_slices[of b 0 vs] by (simp add: slices_chunks)

lemma length_chunks: "length (chunks b vs) = (length vs + b - 1) div b"
  by (simp add: chunks_def)

lemma nth_chunks:
  "k < length (chunks b vs) \<Longrightarrow> chunks b vs ! k = take b (drop (k * b) vs)"
  by (simp add: chunks_def)

text \<open>
  C2. For a batch size \<open>b > 0\<close> and \<open>n\<close> records, a save operation that returns
  normally has issued exactly \<open>\<lceil>n / b\<rceil>\<close> inserts, all with the operation's
  statement; the \<open>k\<close>-th carries the slice of at most \<open>b\<close> records from index \<open>k * b\<close>,
  and the slices concatenated in the order of the calls are the input. With a client
  that never raises, the operation does return normally.
\<close>

theorem save_issues_ceil_batches:
  assumes "0 < BATCH_SIZE" and "(save, query) \<in> set save_ops"
  shows "((\<forall>st c. snd (ex st query c) = None) \<longrightarrow>
            (\<exists>s' calls. save ex BATCH_SIZE vs s = (s', calls, None)))
       \<and> (save ex BATCH_SIZE vs s = (s', calls, None) \<longrightarrow>
            length calls = (length vs + nat BATCH_SIZE - 1) div nat BATCH_SIZE
          \<and> (\<forall>k < length calls.
                calls ! k = (query, take (nat BATCH_SIZE) (drop (k * nat BATCH_SIZE) vs))
              \<and> length (snd (calls ! k)) \<le> nat BATCH_SIZE)
          \<and> concat (map snd calls) = vs)"
proof (intro conjI impI)
  assume nf: "\<forall>st c. snd (ex st query c) = None"
  from run_never_fails[of ex query "chunks (nat BATCH_SIZE) vs" s] nf show "\<exists>s' calls. save ex BATCH_SIZE vs s = (s', calls, None)"
    by (simp add: save_is_run[OF assms])
next
  assume "save ex BATCH_SIZE vs s = (s', calls, None)"
  then have "run_batches ex query (chunks (nat BATCH_SIZE) vs) s = (s', calls, None)"
    by (simp add: save_is_run[OF assms])
  from run_none[OF this] have calls: "calls = map (Pair query) (chunks (nat BATCH_SIZE) vs)"
    by simp
  show "length calls = (length vs + nat BATCH_SIZE - 1) div nat BATCH_SIZE"
    by (simp add: calls length_chunks)
  show "\<forall>k < length calls.
          calls ! k = (query, take (nat BATCH_SIZE) (drop (k * nat BATCH_SIZE) vs))
        \<and> length (snd (calls ! k)) \<le> nat BATCH_SIZE"
    by (simp add: calls nth_chunks)
  have "map snd calls = chunks (nat BATCH_SIZE) vs"
    by (simp add: calls comp_def)
  then show "concat (map snd calls) = vs"
    using assms(1) by (simp add: concat_chunks)
qed

theorem save_issues_ceil_batches_witness:
  "(0::int) < 2
   \<and> save_positions ex_client 2 good_rows [] =
       (good_rows,
        [(positions_query, [[JInt 1], [JInt 2]]),
         (positions_query, [[JInt 3], [JInt 4]]),
         (positions_query, [[JInt 5]])],
        None)
   \<and> length [(positions_query, [[JInt 1], [JInt 2]]),
              (positions_query, [[JInt 3], [JInt 4]]),
              (positions_query, [[JInt 5]])]
       = (length good_rows + nat 2 - 1) div nat 2
   \<and> concat (map snd [(positions_query, [[JInt 1], [JInt 2]]),
                      (positions_query, [[JInt 3], [JInt 4]]),
                      (positions_query, [[JInt 5]])]) = good_rows"
proof -
  let ?calls = "[(positions_query, [[JInt 1], [JInt 2]]),
                 (positions_query, [[JInt 3], [JInt 4]]),
                 (positions_query, [[JInt 5]])]"
  have m: "(save_positions, positions_query) \<in> set save_ops"
    by (simp add: save_ops_def)
  have run: "save_positions ex_client 2 good_rows [] = (good_rows, ?calls, None)"
    by (simp add: save_positions_def execute_query_def execute_loop.simps good_rows_def
          ex_client_def Let_def)
  from save_issues_ceil_batches[of 2 save_positions positions_query ex_client good_rows "[]"
         good_rows ?calls, OF _ m] run
  have "length ?calls = (length good_rows + nat 2 - 1) div nat 2
        \<and> concat (map snd ?calls) = good_rows"
    by simp
  with run show ?thesis by simp
qed

text \<open>
  C5. Let \<open>cs\<close> be the chunks of the input of a save operation. If the inserts of the
  chunks before the \<open>i\<close>-th succeed and the insert of the \<open>i\<close>-th raises \<open>e\<close>, then
  the operation issues exactly the inserts of the chunks up to the \<open>i\<close>-th, none of a
  later chunk, raises that same \<open>e\<close>, and leaves the store as those inserts left it:
  what the earlier chunks wrote is not undone.
\<close>

theorem failed_chunk_aborts_save:
  assumes "0 < BATCH_SIZE" and "(save, query) \<in> set save_ops"
    and "cs = chunks (nat BATCH_SIZE) vs" and "i < length cs"
    and "\<forall>j<i. snd (ex (store_after ex query (take j cs) s) query (cs ! j)) = None"
    and "snd (ex (store_after ex query (take i cs) s) query (cs ! i)) = Some e"
  shows "save ex BATCH_SIZE vs s =
           (store_after ex query (take (Suc i) cs) s, map (Pair query) (take (Suc i) cs), Some e)"
  using run_fail[OF assms(4) assms(5) assms(6)] save_is_run[OF assms(1) assms(2)] assms(3)
  by simp

theorem failed_chunk_aborts_save_witness:
  "save_commits ex_client 2 bad_rows [] =
     ([[JInt 1], [JInt 2], [JInt 3], [JInt 4]],
      [(commits_query, [[JInt 1], [JInt 2]]),
       (commits_query, [[JInt 3], [JInt 4]]),
       (commits_query, [[JNull], [JInt 6]])],
      Some (ChClientError ''bad row''))"
proof -
  let ?cs = "[[[JInt 1], [JInt 2]], [[JInt 3], [JInt 4]], [[JNull], [JInt 6]], [[JInt 7]]]"
  have m: "(save_commits, commits_query) \<in> set save_ops"
    by (simp add: save_ops_def)
  have cs: "?cs = chunks (nat 2) bad_rows"
    by code_simp
  have i: "2 < length ?cs" by simp
  have ok: "\<forall>j<2. snd (ex_client (store_after ex_client commits_query (take j ?cs) [])
                      commits_query (?cs ! j)) = None"
  proof (intro allI impI)
    fix j :: nat
    assume "j < 2"
    then have "j = 0 \<or> j = Suc 0" by (rule less_2_cases)
    then show "snd (ex_client (store_after ex_client commits_query (take j ?cs) [])
                      commits_query (?cs ! j)) = None"
      by (auto simp: store_after_def ex_client_def)
  qed
  have bad: "snd (ex_client (store_after ex_client commits_query (take 2 ?cs) [])
                      commits_query (?cs ! 2)) = Some (ChClientError ''bad row'')"
    by (simp add: store_after_def ex_client_def)
  have "save_commits ex_client 2 bad_rows [] =
          (store_after ex_client commits_query (take (Suc 2) ?cs) [],
           map (Pair commits_query) (take (Suc 2) ?cs),
           Some (ChClientError ''bad row''))"
    by (rule failed_chunk_aborts_save[OF _ m cs i ok bad]) simp
  then show ?thesis
    by (simp add: store_after_def ex_client_def)
qed

section \<open>Properties of processing and collecting\<close>

lemma failures_Nil_iff: "failures rs = [] \<longleftrightarrow> (\<forall>r \<in> set rs. \<exists>x. r = Inr x)"
  by (induction rs rule: failures.induct) auto

lemma successes_all:
  "failures rs = [] \<Longrightarrow> length (successes rs) = length rs \<and> (\<forall>i<length rs. rs ! i = Inr (successes rs ! i))"
proof (induction rs rule: failures.induct)
  case 1
  then show ?case by simp
next
  case (2 e rs)
  then show ?case by simp
next
  case (3 x rs)
  then show ?case by (auto simp: nth_Cons split: nat.splits)
qed


lemma gather_Inr: "gather pick rs = Inr xs \<longleftrightarrow> failures rs = [] \<and> xs = successes rs"
  by (auto simp: gather_def split: list.splits)



lemma tasks_nth:
  "i < length repos \<Longrightarrow>
     map (\<lambda>(idx, repo). process_repository gh repo (int idx + 1)) (enumerate 0 repos) ! i
       = process_repository gh (repos ! i) (int i + 1)"
  by (simp add: nth_enumerate_eq)

lemma top_repositories_items:
  "gh (SearchRepositories limit) = Inr (JObj data) \<Longrightarrow> map_of data ''items'' = Some (JArr items) \<Longrightarrow>
     get_top_repositories gh limit = Inr (JArr items)"
  by (simp add: get_top_repositories_def make_request_def dict_get_def)

lemma get_repositories_items:
  "gh (SearchRepositories limit) = Inr (JObj data) \<Longrightarrow> map_of data ''items'' = Some (JArr items) \<Longrightarrow>
     get_repositories gh pick limit =
       gather pick (map (\<lambda>(idx, repo). process_repository gh repo (int idx + 1)) (enumerate 0 items))"
  by (simp add: get_repositories_def top_repositories_items)

lemma process_repository_position:
  "process_repository gh rd pos = Inr r \<Longrightarrow> position r = pos"
  by (auto simp: process_repository_def split: sum.splits)

lemma process_ex1:
  "process_repository ex_github ex_repo1 1 =
     Inr \<lparr>name = JStr ''linux'', owner = JStr ''torvalds'', position = 1, stars = JInt 3,
          watchers = JInt 3, forks = JInt 1, language = JNull,
          authors_commits_num_today =
            [\<lparr>author = JStr ''a'', commits_num = 2\<rparr>, \<lparr>author = JStr ''b'', commits_num = 1\<rparr>]\<rparr>"
  by (simp add: process_repository_def ex_repo1_def ex_fields1_def ex_github_def get_repository_commits_def
        make_request_def aggregate_commits_def ex_commits_def authors_commits_of_def
        dict_get_def key_eq_def)

lemma process_ex2:
  "process_repository ex_github ex_repo2 2 =
     Inr \<lparr>name = JStr ''UNKNOWN'', owner = JStr ''octocat'', position = 2, stars = JInt 5,
          watchers = JInt 5, forks = JInt 2, language = JStr ''Unknown'',
          authors_commits_num_today =
            [\<lparr>author = JStr ''a'', commits_num = 2\<rparr>, \<lparr>author = JStr ''b'', commits_num = 1\<rparr>]\<rparr>"
  by (simp add: process_repository_def ex_repo2_def ex_fields2_def ex_github_def get_repository_commits_def
        make_request_def aggregate_commits_def ex_commits_def authors_commits_of_def
        dict_get_def key_eq_def)

lemma get_repositories_ex:
  "get_repositories ex_github pick 2 =
     Inr [\<lparr>name = JStr ''linux'', owner = JStr ''torvalds'', position = 1, stars = JInt 3,
           watchers = JInt 3, forks = JInt 1, language = JNull,
           authors_commits_num_today =
             [\<lparr>author = JStr ''a'', commits_num = 2\<rparr>, \<lparr>author = JStr ''b'', commits_num = 1\<rparr>]\<rparr>,
          \<lparr>name = JStr ''UNKNOWN'', owner = JStr ''octocat'', position = 2, stars = JInt 5,
           watchers = JInt 5, forks = JInt 2, language = JStr ''Unknown'',
           authors_commits_num_today =
             [\<lparr>author = JStr ''a'', commits_num = 2\<rparr>, \<lparr>author = JStr ''b'', commits_num = 1\<rparr>]\<rparr>]"
proof -
  have "get_repositories ex_github pick 2 =
          gather pick [process_repository ex_github ex_repo1 1, process_repository ex_github ex_repo2 2]"
    by (simp add: get_repositories_def get_top_repositories_def make_request_def ex_github_def
          dict_get_def enumerate_simps)
  then show ?thesis
    by (simp add: process_ex1 process_ex2 gather_def)
qed

lemma aggregate_len: "aggregate_commits commits = Inr acs \<Longrightarrow> py_len commits = Inr (length (projr (py_iter commits)))"
  by (cases commits) (simp_all add: aggregate_commits_def)

lemma process_repository_JObj:
  "process_repository gh (JObj d) pos =
     (case map_of d ''owner'' of
        None \<Rightarrow> Inl (KeyError ''owner'')
      | Some owner_data \<Rightarrow>
     (case subscript owner_data ''login'' of
        Inl e \<Rightarrow> Inl e
      | Inr ow \<Rightarrow>
     (case get_repository_commits gh ow (dict_get d ''name'' (JStr ''UNKNOWN'')) of
        Inl e \<Rightarrow> Inl e
      | Inr commits \<Rightarrow>
     (case aggregate_commits commits of
        Inl e \<Rightarrow> Inl e
      | Inr authors_commits \<Rightarrow>
     (case map_of d ''stargazers_count'' of
        None \<Rightarrow> Inl (KeyError ''stargazers_count'')
      | Some st \<Rightarrow>
     (case map_of d ''watchers_count'' of
        None \<Rightarrow> Inl (KeyError ''watchers_count'')
      | Some wa \<Rightarrow>
     (case map_of d ''forks_count'' of
        None \<Rightarrow> Inl (KeyError ''forks_count'')
      | Some fo \<Rightarrow>
          Inr \<lparr>name = dict_get d ''name'' (JStr ''UNKNOWN''), owner = ow, position = pos,
               stars = st, watchers = wa, forks = fo,
               language = dict_get d ''language'' (JStr ''Unknown''),
               authors_commits_num_today = authors_commits\<rparr>)))))))"
  by (simp add: process_repository_def split: sum.splits option.splits)

text \<open>
  C3. When the search returns a dictionary whose \<^verbatim>\<open>items\<close> is a list of exactly
  \<open>limit\<close> records: if every task returns then \<^verbatim>\<open>get_repositories\<close> returns; and
  whenever it returns, it returns exactly \<open>limit\<close> results, the \<open>i\<close>-th of them (from
  0) being the result of processing the \<open>i\<close>-th item with position \<open>i + 1\<close>. So the
  positions run from 1 to \<open>limit\<close> in the order of the response, whatever the star
  counts are.
\<close>

theorem get_repositories_positions:
  assumes "gh (SearchRepositories limit) = Inr (JObj data)"
    and "map_of data ''items'' = Some (JArr items)"
    and "int (length items) = limit"
  shows "((\<forall>i<length items. \<exists>r. process_repository gh (items ! i) (int i + 1) = Inr r) \<longrightarrow>
            (\<exists>rs. get_repositories gh pick limit = Inr rs))
       \<and> (get_repositories gh pick limit = Inr rs \<longrightarrow>
            int (length rs) = limit
          \<and> (\<forall>i<length rs. process_repository gh (items ! i) (int i + 1) = Inr (rs ! i)
                \<and> position (rs ! i) = int i + 1))"
proof (intro conjI impI)
  let ?tasks = "map (\<lambda>(idx, repo). process_repository gh repo (int idx + 1)) (enumerate 0 items)"
  have g: "get_repositories gh pick limit = gather pick ?tasks"
    by (rule get_repositories_items[of gh limit data items pick, OF assms(1) assms(2)])
  have len: "length ?tasks = length items" by simp
  {
    assume ok: "\<forall>i<length items. \<exists>r. process_repository gh (items ! i) (int i + 1) = Inr r"
    have "\<forall>t \<in> set ?tasks. \<exists>x. t = Inr x"
    proof
      fix t assume "t \<in> set ?tasks"
      then obtain i where i: "i < length ?tasks" "t = ?tasks ! i"
        by (metis in_set_conv_nth)
      with ok tasks_nth[of i items gh] show "\<exists>x. t = Inr x" by simp
    qed
    then have "failures ?tasks = []" by (simp add: failures_Nil_iff)
    then show "\<exists>rs. get_repositories gh pick limit = Inr rs"
      by (simp add: g gather_Inr)
  }
  {
    assume r: "get_repositories gh pick limit = Inr rs"
    then have f: "failures ?tasks = []" and rs: "rs = successes ?tasks"
      by (simp_all add: g gather_Inr)
    from successes_all[OF f] rs len
    have l: "length rs = length items" and n: "\<forall>i<length items. ?tasks ! i = Inr (rs ! i)"
      by simp_all
    show "int (length rs) = limit" using l assms(3) by simp
    show "\<forall>i<length rs. process_repository gh (items ! i) (int i + 1) = Inr (rs ! i)
                \<and> position (rs ! i) = int i + 1"
    proof (intro allI impI)
      fix i assume "i < length rs"
      then have i: "i < length items" using l by simp
      with n tasks_nth[OF i, of gh] have p: "process_repository gh (items ! i) (int i + 1) = Inr (rs ! i)"
        by simp
      with process_repository_position[OF p]
      show "process_repository gh (items ! i) (int i + 1) = Inr (rs ! i) \<and> position (rs ! i) = int i + 1"
        by simp
    qed
  }
qed

theorem get_repositories_positions_witness:
  "int (length [ex_repo1, ex_repo2]) = 2
   \<and> (\<exists>rs. get_repositories ex_github 0 2 = Inr rs
          \<and> length rs = 2
          \<and> position (rs ! 0) = 1 \<and> stars (rs ! 0) = JInt 3
          \<and> position (rs ! 1) = 2 \<and> stars (rs ! 1) = JInt 5)"
proof -
  obtain rs where rs: "get_repositories ex_github 0 2 = Inr rs"
    and st: "stars (rs ! 0) = JInt 3" "stars (rs ! 1) = JInt 5"
    by (simp add: get_repositories_ex)
  have a: "ex_github (SearchRepositories 2) = Inr (JObj [(''items'', JArr [ex_repo1, ex_repo2])])"
    by (simp add: ex_github_def)
  have b: "map_of [(''items'', JArr [ex_repo1, ex_repo2])] ''items'' = Some (JArr [ex_repo1, ex_repo2])"
    by simp
  have c: "int (length [ex_repo1, ex_repo2]) = 2" by simp
  from get_repositories_positions[of ex_github 2 "[(''items'', JArr [ex_repo1, ex_repo2])]"
         "[ex_repo1, ex_repo2]" 0 rs, OF a b c] rs
  have l: "int (length rs) = 2"
    and p: "\<forall>i<length rs. position (rs ! i) = int i + 1"
    by simp_all
  from l have l2: "length rs = 2" by simp
  with p have "position (rs ! 0) = 1" "position (rs ! 1) = 2" by simp_all
  with rs st l2 show ?thesis by simp
qed

text \<open>
  C9. Whenever a record is processed, the language of the result is the value of the
  record's \<^verbatim>\<open>language\<close> key when the key is present, also when that value is null;
  the default \<open>Unknown\<close> is taken only when the key is absent.
\<close>

theorem language_null_is_kept:
  assumes "process_repository gh (JObj d) pos = Inr r"
  shows "(map_of d ''language'' = Some JNull \<longrightarrow> language r = JNull)
       \<and> (\<forall>v. map_of d ''language'' = Some v \<longrightarrow> language r = v)
       \<and> (map_of d ''language'' = None \<longrightarrow> language r = JStr ''Unknown'')"
proof -
  from assms have "language r = dict_get d ''language'' (JStr ''Unknown'')"
    by (auto simp: process_repository_JObj split: sum.splits option.splits)
  then show ?thesis by (simp add: dict_get_def)
qed

theorem language_null_is_kept_witness:
  "map_of ex_fields1 ''language'' = Some JNull
   \<and> (\<exists>r. process_repository ex_github (JObj ex_fields1) 1 = Inr r \<and> language r = JNull)"
proof -
  have l: "map_of ex_fields1 ''language'' = Some JNull"
    by (simp add: ex_fields1_def)
  obtain r where r: "process_repository ex_github (JObj ex_fields1) 1 = Inr r"
    using process_ex1 by (simp add: ex_repo1_def)
  from language_null_is_kept[OF r] l have "language r = JNull" by simp
  with l r show ?thesis by blast
qed

text \<open>
  C10, as the code has it. A record without the \<^verbatim>\<open>name\<close> key is processed exactly as
  the same record with the name \<open>UNKNOWN\<close>: no exception is raised for the missing
  name itself, and the sentinel is the repository the commits are requested for. When
  the owner login and the three counts are present and that request succeeds with
  commits that can be counted, processing returns the repository with the name
  \<open>UNKNOWN\<close>; whenever processing returns, the name is \<open>UNKNOWN\<close> and the commits are
  those requested for the repository \<open>UNKNOWN\<close>. When that request fails, as it does
  when the owner has no repository of that name, processing fails with the exception
  of the request.
\<close>

theorem missing_name_uses_sentinel:
  assumes "map_of d ''name'' = None"
  shows "process_repository gh (JObj d) pos
           = process_repository gh (JObj ((''name'', JStr ''UNKNOWN'') # d)) pos
       \<and> (map_of d ''owner'' = Some (JObj od) \<and> map_of od ''login'' = Some ow
            \<and> gh (RepoCommits ow (JStr ''UNKNOWN'')) = Inr commits
            \<and> aggregate_commits commits = Inr acs
            \<and> map_of d ''stargazers_count'' = Some st
            \<and> map_of d ''watchers_count'' = Some wa
            \<and> map_of d ''forks_count'' = Some fo
          \<longrightarrow> process_repository gh (JObj d) pos =
                Inr \<lparr>name = JStr ''UNKNOWN'', owner = ow, position = pos, stars = st,
                     watchers = wa, forks = fo,
                     language = dict_get d ''language'' (JStr ''Unknown''),
                     authors_commits_num_today = acs\<rparr>)
       \<and> (\<forall>r. process_repository gh (JObj d) pos = Inr r \<longrightarrow>
              name r = JStr ''UNKNOWN''
            \<and> (\<exists>cm. gh (RepoCommits (owner r) (JStr ''UNKNOWN'')) = Inr cm
                   \<and> aggregate_commits cm = Inr (authors_commits_num_today r)))
       \<and> (map_of d ''owner'' = Some (JObj od) \<and> map_of od ''login'' = Some ow
            \<and> gh (RepoCommits ow (JStr ''UNKNOWN'')) = Inl e
          \<longrightarrow> process_repository gh (JObj d) pos = Inl e)"
proof (intro conjI impI allI)
  have n: "dict_get d ''name'' (JStr ''UNKNOWN'') = JStr ''UNKNOWN''"
    using assms by (simp add: dict_get_def)
  have n': "dict_get ((''name'', JStr ''UNKNOWN'') # d) ''name'' (JStr ''UNKNOWN'') = JStr ''UNKNOWN''"
    by (simp add: dict_get_def)
  have l': "dict_get ((''name'', JStr ''UNKNOWN'') # d) ''language'' (JStr ''Unknown'')
              = dict_get d ''language'' (JStr ''Unknown'')"
    by (simp add: dict_get_def)
  have m: "map_of ((''name'', JStr ''UNKNOWN'') # d) ''owner'' = map_of d ''owner''"
    "map_of ((''name'', JStr ''UNKNOWN'') # d) ''stargazers_count'' = map_of d ''stargazers_count''"
    "map_of ((''name'', JStr ''UNKNOWN'') # d) ''watchers_count'' = map_of d ''watchers_count''"
    "map_of ((''name'', JStr ''UNKNOWN'') # d) ''forks_count'' = map_of d ''forks_count''"
    by simp_all
  show "process_repository gh (JObj d) pos
           = process_repository gh (JObj ((''name'', JStr ''UNKNOWN'') # d)) pos"
    unfolding process_repository_JObj n n' l' m by (rule refl)
  {
    assume h: "map_of d ''owner'' = Some (JObj od) \<and> map_of od ''login'' = Some ow
            \<and> gh (RepoCommits ow (JStr ''UNKNOWN'')) = Inr commits
            \<and> aggregate_commits commits = Inr acs
            \<and> map_of d ''stargazers_count'' = Some st
            \<and> map_of d ''watchers_count'' = Some wa
            \<and> map_of d ''forks_count'' = Some fo"
    then have "get_repository_commits gh ow (JStr ''UNKNOWN'') = Inr commits"
      using aggregate_len[of commits acs]
      by (simp add: get_repository_commits_def make_request_def)
    with h show "process_repository gh (JObj d) pos =
                Inr \<lparr>name = JStr ''UNKNOWN'', owner = ow, position = pos, stars = st,
                     watchers = wa, forks = fo,
                     language = dict_get d ''language'' (JStr ''Unknown''),
                     authors_commits_num_today = acs\<rparr>"
      by (simp add: process_repository_JObj n)
  }
  {
    fix r
    assume r: "process_repository gh (JObj d) pos = Inr r"
    then show "name r = JStr ''UNKNOWN''"
      by (auto simp: process_repository_JObj n split: sum.splits option.splits)
    from r obtain cm where "get_repository_commits gh (owner r) (JStr ''UNKNOWN'') = Inr cm"
      "aggregate_commits cm = Inr (authors_commits_num_today r)"
      by (auto simp: process_repository_JObj n split: sum.splits option.splits)
    then show "\<exists>cm. gh (RepoCommits (owner r) (JStr ''UNKNOWN'')) = Inr cm
                   \<and> aggregate_commits cm = Inr (authors_commits_num_today r)"
      by (auto simp: get_repository_commits_def make_request_def split: sum.splits)
  }
  {
    assume "map_of d ''owner'' = Some (JObj od) \<and> map_of od ''login'' = Some ow
            \<and> gh (RepoCommits ow (JStr ''UNKNOWN'')) = Inl e"
    then show "process_repository gh (JObj d) pos = Inl e"
      by (simp add: process_repository_JObj n get_repository_commits_def make_request_def)
  }
qed

theorem missing_name_uses_sentinel_witness:
  "map_of ex_fields2 ''name'' = None
   \<and> process_repository ex_github (JObj ex_fields2) 2 =
       Inr \<lparr>name = JStr ''UNKNOWN'', owner = JStr ''octocat'', position = 2, stars = JInt 5,
            watchers = JInt 5, forks = JInt 2, language = JStr ''Unknown'',
            authors_commits_num_today =
              [\<lparr>author = JStr ''a'', commits_num = 2\<rparr>, \<lparr>author = JStr ''b'', commits_num = 1\<rparr>]\<rparr>"
proof -
  have n: "map_of ex_fields2 ''name'' = None"
    by (simp add: ex_fields2_def)
  have h: "map_of ex_fields2 ''owner'' = Some (JObj [(''login'', JStr ''octocat'')])
         \<and> map_of [(''login'', JStr ''octocat'')] ''login'' = Some (JStr ''octocat'')
         \<and> ex_github (RepoCommits (JStr ''octocat'') (JStr ''UNKNOWN'')) = Inr (JArr ex_commits)
         \<and> aggregate_commits (JArr ex_commits) =
             Inr [\<lparr>author = JStr ''a'', commits_num = 2\<rparr>, \<lparr>author = JStr ''b'', commits_num = 1\<rparr>]
         \<and> map_of ex_fields2 ''stargazers_count'' = Some (JInt 5)
         \<and> map_of ex_fields2 ''watchers_count'' = Some (JInt 5)
         \<and> map_of ex_fields2 ''forks_count'' = Some (JInt 2)"
    by (simp add: ex_fields2_def ex_github_def aggregate_commits_def ex_commits_def
          authors_commits_of_def dict_get_def key_eq_def)
  have l: "dict_get ex_fields2 ''language'' (JStr ''Unknown'') = JStr ''Unknown''"
    by (simp add: ex_fields2_def dict_get_def)
  note t = missing_name_uses_sentinel[where d = ex_fields2 and gh = ex_github and pos = 2
         and od = "[(''login'', JStr ''octocat'')]" and ow = "JStr ''octocat''"
         and commits = "JArr ex_commits"
         and acs = "[\<lparr>author = JStr ''a'', commits_num = 2\<rparr>, \<lparr>author = JStr ''b'', commits_num = 1\<rparr>]"
         and st = "JInt 5" and wa = "JInt 5" and fo = "JInt 2", OF n]
  from t[THEN conjunct2, THEN conjunct1] h
  have p: "process_repository ex_github (JObj ex_fields2) 2 =
       Inr \<lparr>name = JStr ''UNKNOWN'', owner = JStr ''octocat'', position = 2, stars = JInt 5,
            watchers = JInt 5, forks = JInt 2,
            language = dict_get ex_fields2 ''language'' (JStr ''Unknown''),
            authors_commits_num_today =
              [\<lparr>author = JStr ''a'', commits_num = 2\<rparr>, \<lparr>author = JStr ''b'', commits_num = 1\<rparr>]\<rparr>"
    by (rule mp)
  from n p[unfolded l] show ?thesis by (rule conjI)
qed

text \<open>
  A record without a name whose processing fails because of the missing name: the
  remote side knows no repository \<open>UNKNOWN\<close> and answers the commits request with an
  error. The same record with a name is processed; without it the exception ends
  \<^verbatim>\<open>get_repositories\<close> and the run.
\<close>

theorem missing_name_lookup_fails:
  "map_of ex_fields2 ''name'' = None
   \<and> process_repository ex_github_404 (JObj ex_fields2) 2 = Inl (ClientError ''404'')
   \<and> process_repository ex_github_404 (JObj ((''name'', JStr ''hello-world'') # ex_fields2)) 2 =
       Inr \<lparr>name = JStr ''hello-world'', owner = JStr ''octocat'', position = 2,
            stars = JInt 5, watchers = JInt 5, forks = JInt 2, language = JStr ''Unknown'',
            authors_commits_num_today =
              [\<lparr>author = JStr ''a'', commits_num = 2\<rparr>, \<lparr>author = JStr ''b'', commits_num = 1\<rparr>]\<rparr>
   \<and> get_repositories ex_github_404 0 2 = Inl (ClientError ''404'')
   \<and> main ex_github_404 0 ex_client 0 2 2 ex_now [] = ([], [], Some (ClientError ''404''))"
proof -
  have n: "map_of ex_fields2 ''name'' = None"
    by (simp add: ex_fields2_def)
  have p1: "process_repository ex_github_404 ex_repo1 1 =
     Inr \<lparr>name = JStr ''linux'', owner = JStr ''torvalds'', position = 1, stars = JInt 3,
          watchers = JInt 3, forks = JInt 1, language = JNull,
          authors_commits_num_today =
            [\<lparr>author = JStr ''a'', commits_num = 2\<rparr>, \<lparr>author = JStr ''b'', commits_num = 1\<rparr>]\<rparr>"
    by (simp add: process_repository_def ex_repo1_def ex_fields1_def ex_github_404_def
          get_repository_commits_def make_request_def aggregate_commits_def ex_commits_def
          authors_commits_of_def dict_get_def key_eq_def)
  have p2: "process_repository ex_github_404 (JObj ex_fields2) 2 = Inl (ClientError ''404'')"
    by (simp add: process_repository_def ex_fields2_def ex_github_404_def
          get_repository_commits_def make_request_def dict_get_def)
  have p3: "process_repository ex_github_404 (JObj ((''name'', JStr ''hello-world'') # ex_fields2)) 2 =
       Inr \<lparr>name = JStr ''hello-world'', owner = JStr ''octocat'', position = 2,
            stars = JInt 5, watchers = JInt 5, forks = JInt 2, language = JStr ''Unknown'',
            authors_commits_num_today =
              [\<lparr>author = JStr ''a'', commits_num = 2\<rparr>, \<lparr>author = JStr ''b'', commits_num = 1\<rparr>]\<rparr>"
    by (simp add: process_repository_def ex_fields2_def ex_github_404_def
          get_repository_commits_def make_request_def aggregate_commits_def ex_commits_def
          authors_commits_of_def dict_get_def key_eq_def)
  have "get_repositories ex_github_404 0 2 =
          gather 0 [process_repository ex_github_404 ex_repo1 1,
                    process_repository ex_github_404 (JObj ex_fields2) 2]"
    by (simp add: get_repositories_def get_top_repositories_def make_request_def
          ex_github_404_def dict_get_def enumerate_simps ex_repo2_def)
  then have g: "get_repositories ex_github_404 0 2 = Inl (ClientError ''404'')"
    by (simp add: p1 p2 gather_def)
  have m: "main ex_github_404 0 ex_client 0 2 2 ex_now [] = ([], [], Some (ClientError ''404''))"
    by (simp add: main_def g)
  show ?thesis
    by (rule conjI[OF n conjI[OF p2 conjI[OF p3 conjI[OF g m]]]])
qed

section \<open>Properties of the run\<close>








lemma run_calls:
  "run_batches ex query cs s = (s', calls, r) \<Longrightarrow> set calls \<subseteq> Pair query ` set cs"
proof (induction cs arbitrary: s s' calls r)
  case Nil
  then show ?case by simp
next
  case (Cons c cs)
  obtain s1 r1 where e: "ex s query c = (s1, r1)" by (cases "ex s query c")
  obtain s2 calls2 r2 where rb: "run_batches ex query cs s1 = (s2, calls2, r2)"
    by (cases "run_batches ex query cs s1")
  from Cons.IH[OF rb] have "set calls2 \<subseteq> Pair query ` set cs" .
  with Cons.prems e rb show ?case
    by (cases r1) auto
qed

lemma slices_subset:
  assumes "0 < b" and "c \<in> set (slices b i vs)"
  shows "set c \<subseteq> set vs"
proof -
  have "set c \<subseteq> set (concat (slices b i vs))"
    using assms(2) by auto
  also have "\<dots> = set (drop i vs)"
    using assms(1) by (simp add: concat_slices)
  also have "\<dots> \<subseteq> set vs"
    by (rule set_drop_subset)
  finally show ?thesis .
qed

lemma execute_query_calls:
  assumes "execute_query ex query vs b s = (s', calls, r)" and "c \<in> set calls"
  shows "fst c = query \<and> set (snd c) \<subseteq> set vs"
proof (cases "0 < b")
  case True
  with assms(1) have "run_batches ex query (slices (nat b) 0 vs) s = (s', calls, r)"
    by (simp add: execute_query_def loop_is_run)
  from run_calls[OF this] assms(2) obtain sl where "c = (query, sl)" "sl \<in> set (slices (nat b) 0 vs)"
    by auto
  with slices_subset[of "nat b" sl 0 vs] True show ?thesis by simp
next
  case False
  with assms show ?thesis
    by (auto simp: execute_query_def split: if_splits)
qed

lemma save_calls:
  assumes "(save, query) \<in> set save_ops" and "save ex b vs s = (s', calls, r)"
    and "c \<in> set calls"
  shows "fst c = query \<and> set (snd c) \<subseteq> set vs"
proof -
  have "save ex b vs s = (if vs = [] then (s, [], None) else execute_query ex query vs b s)"
    using assms(1)
    by (auto simp: save_ops_def save_repositories_def save_positions_def save_commits_def)
  with assms(2) assms(3) execute_query_calls[of ex query vs b s s' calls r c] show ?thesis
    by (cases "vs = []") auto
qed

lemma repo_data_date: "row \<in> set (repo_data dt rs) \<Longrightarrow> row ! 6 = JStr dt"
  by (auto simp: repo_data_def)

lemma positions_data_date: "row \<in> set (positions_data dt rs) \<Longrightarrow> row ! 0 = JStr dt"
  by (auto simp: positions_data_def)

lemma commits_data_date: "row \<in> set (commits_data dt rs) \<Longrightarrow> row ! 0 = JStr dt"
  by (auto simp: commits_data_def)

lemma timestamp_columns:
  "timestamp_column repositories_query = 6"
  "timestamp_column positions_query = 0"
  "timestamp_column commits_query = 0"
  by (simp_all add: timestamp_column_def repositories_query_def positions_query_def
        commits_query_def)

lemma save_all_calls:
  assumes "save_all ex b pick a p c s = (s', calls, r)" and "cl \<in> set calls"
  shows "(fst cl = repositories_query \<and> set (snd cl) \<subseteq> set a)
       \<or> (fst cl = positions_query \<and> set (snd cl) \<subseteq> set p)
       \<or> (fst cl = commits_query \<and> set (snd cl) \<subseteq> set c)"
proof -
  obtain s1 calls1 r1 where 1: "save_repositories ex b a s = (s1, calls1, r1)"
    by (cases "save_repositories ex b a s")
  obtain s2 calls2 r2 where 2: "save_positions ex b p s1 = (s2, calls2, r2)"
    by (cases "save_positions ex b p s1")
  obtain s3 calls3 r3 where 3: "save_commits ex b c s2 = (s3, calls3, r3)"
    by (cases "save_commits ex b c s2")
  from assms(1) 1 2 3 have "calls = calls1 @ calls2 @ calls3"
    by (simp add: save_all_def)
  with assms(2) consider "cl \<in> set calls1" | "cl \<in> set calls2" | "cl \<in> set calls3"
    by auto
  then show ?thesis
  proof cases
    case 1
    have "(save_repositories, repositories_query) \<in> set save_ops" by (simp add: save_ops_def)
    from save_calls[OF this \<open>save_repositories ex b a s = (s1, calls1, r1)\<close> 1] show ?thesis
      by simp
  next
    case 2
    have "(save_positions, positions_query) \<in> set save_ops" by (simp add: save_ops_def)
    from save_calls[OF this \<open>save_positions ex b p s1 = (s2, calls2, r2)\<close> 2] show ?thesis
      by simp
  next
    case 3
    have "(save_commits, commits_query) \<in> set save_ops" by (simp add: save_ops_def)
    from save_calls[OF this \<open>save_commits ex b c s2 = (s3, calls3, r3)\<close> 3] show ?thesis
      by simp
  qed
qed

lemma strftime_ex_now: "strftime ex_now = ''2026-11-03 07:05:09''"
  by (simp add: strftime_def pad4_def pad2_def digit_def ex_now_def)

lemma main_ex:
  "\<exists>s' calls. main ex_github 0 ex_client 0 2 2 ex_now [] = (s', calls, None) \<and> length calls = 4"
  by (simp add: main_def get_repositories_ex strftime_ex_now Let_def save_all_def
        save_repositories_def save_positions_def save_commits_def execute_query_def
        execute_loop.simps ex_client_def repo_data_def positions_data_def commits_data_def
        gather_def)

text \<open>
  C7. \<^verbatim>\<open>date_today\<close> is one value, rendered once from one clock reading, to the
  second: the rendering does not depend on the microsecond. Every row of each of the
  three lists assembled from it carries it in its timestamp column (\<^verbatim>\<open>updated\<close>, the
  last of a repository row; \<^verbatim>\<open>date\<close>, the first of a position row and of a commit
  row); and every row of every insert a run issues carries the \<^verbatim>\<open>date_today\<close> of
  that run in the timestamp column of its statement.
\<close>

theorem rows_share_date_today:
  "(\<forall>row \<in> set (repo_data dt rs). row ! 6 = JStr dt)
   \<and> (\<forall>row \<in> set (positions_data dt rs). row ! 0 = JStr dt)
   \<and> (\<forall>row \<in> set (commits_data dt rs). row ! 0 = JStr dt)
   \<and> (main gh pick ex pick' REPOSITORY_LIMIT BATCH_SIZE now s = (s', calls, r) \<longrightarrow>
        (\<forall>c \<in> set calls. \<forall>row \<in> set (snd c).
            row ! timestamp_column (fst c) = JStr (strftime now)))
   \<and> strftime (now\<lparr>microsecond := u\<rparr>) = strftime now"
proof (intro conjI impI ballI)
  show "row ! 6 = JStr dt" if "row \<in> set (repo_data dt rs)" for row
    using that by (rule repo_data_date)
  show "row ! 0 = JStr dt" if "row \<in> set (positions_data dt rs)" for row
    using that by (rule positions_data_date)
  show "row ! 0 = JStr dt" if "row \<in> set (commits_data dt rs)" for row
    using that by (rule commits_data_date)
  show "strftime (now\<lparr>microsecond := u\<rparr>) = strftime now"
    by (simp add: strftime_def)
next
  fix c row
  assume m: "main gh pick ex pick' REPOSITORY_LIMIT BATCH_SIZE now s = (s', calls, r)"
    and c: "c \<in> set calls" and row: "row \<in> set (snd c)"
  show "row ! timestamp_column (fst c) = JStr (strftime now)"
  proof (cases "get_repositories gh pick REPOSITORY_LIMIT")
    case (Inl e)
    with m c show ?thesis by (simp add: main_def)
  next
    case (Inr repos_data)
    with m have "save_all ex BATCH_SIZE pick'
               (repo_data (strftime now) repos_data)
               (positions_data (strftime now) repos_data)
               (commits_data (strftime now) repos_data) s = (s', calls, r)"
      by (simp add: main_def Let_def)
    from save_all_calls[OF this c] row show ?thesis
      using repo_data_date[of row "strftime now" repos_data]
        positions_data_date[of row "strftime now" repos_data]
        commits_data_date[of row "strftime now" repos_data]
      by (auto simp: timestamp_columns)
  qed
qed

theorem rows_share_date_today_witness:
  "strftime ex_now = ''2026-11-03 07:05:09''
   \<and> (\<exists>s' calls. main ex_github 0 ex_client 0 2 2 ex_now [] = (s', calls, None)
          \<and> length calls = 4
          \<and> list_all (\<lambda>c. list_all (\<lambda>row. row ! timestamp_column (fst c)
                                             = JStr ''2026-11-03 07:05:09'') (snd c)) calls)"
proof -
  from main_ex obtain s' calls
    where m: "main ex_github 0 ex_client 0 2 2 ex_now [] = (s', calls, None)"
      and l: "length calls = 4"
    by blast
  note t = rows_share_date_today[where gh = ex_github and pick = 0 and ex = ex_client
      and pick' = 0 and REPOSITORY_LIMIT = 2 and BATCH_SIZE = 2 and now = ex_now
      and s = "[]" and s' = s' and calls = calls and r = None]
  from t[THEN conjunct2, THEN conjunct2, THEN conjunct2, THEN conjunct1] m
  have "\<forall>c \<in> set calls. \<forall>row \<in> set (snd c).
          row ! timestamp_column (fst c) = JStr (strftime ex_now)"
    by (rule mp)
  then have "list_all (\<lambda>c. list_all (\<lambda>row. row ! timestamp_column (fst c)
                                             = JStr ''2026-11-03 07:05:09'') (snd c)) calls"
    by (simp add: list_all_iff strftime_ex_now)
  with m l strftime_ex_now show ?thesis by blast
qed

end
